theory Spec2Isabelle
  imports Main "HOL-Library.Monad_Syntax"
begin

section \<open>The matching engine of main.cpp\<close>

subsection \<open>Input context and match outcome\<close>

text \<open>
  A \<^verbatim>\<open>std::string_view\<close> is a pointer and a length. \<open>sv_data\<close> is the array the
  pointer points into, from the pointer to the end of that array; \<open>sv_size\<close> is the
  length \<^verbatim>\<open>size()\<close> reports. The viewed text is \<open>take (sv_size v) (sv_data v)\<close>.
  A view built from a string literal, as in \<^verbatim>\<open>main\<close>, has the literal's terminating
  zero byte behind its last character; a view of a buffer that ends with the text has
  nothing behind it.
\<close>

record string_view =
  sv_data :: string
  sv_size :: nat

definition literal :: "string \<Rightarrow> string_view" where
  "literal s = \<lparr>sv_data = s @ [CHR 0x00], sv_size = length s\<rparr>"

definition exact :: "string \<Rightarrow> string_view" where
  "exact s = \<lparr>sv_data = s, sv_size = length s\<rparr>"

text \<open>
  \<^verbatim>\<open>context[index]\<close>. The library leaves \<^verbatim>\<open>operator[]\<close> undefined for
  \<open>index \<ge> size()\<close> and, unchecked, reads the byte at \<^verbatim>\<open>data() + index\<close>. The model
  follows the unchecked read: inside the array it yields the byte stored there, also at
  \<open>index \<ge> sv_size\<close>; outside the array the read has no value (\<open>None\<close>).
\<close>

definition sv_at :: "string_view \<Rightarrow> nat \<Rightarrow> char option" where
  "sv_at v index = (if index < length (sv_data v) then Some (sv_data v ! index) else None)"

text \<open>
  The value of a \<^verbatim>\<open>char\<close> in a comparison; \<^verbatim>\<open>char\<close> is taken as signed (x86-64).
  The two readings agree on the 7-bit characters.
\<close>

definition char_val :: "char \<Rightarrow> int" where
  "char_val c = (if (of_char c :: int) < 128 then of_char c else of_char c - 256)"

text \<open>
  What a call of \<^verbatim>\<open>topdown_match\<close> hands back: \<open>Matched n\<close> is
  \<^verbatim>\<open>std::make_optional(n)\<close>, \<open>NoMatch\<close> is \<^verbatim>\<open>std::nullopt\<close>, and \<open>Fault\<close> is a call
  that read outside the array and so produced no \<^verbatim>\<open>std::optional\<close> at all. A call that
  never returns has no outcome: the functions below return \<open>None\<close> for it.
  Offsets and lengths are \<^verbatim>\<open>size_t\<close>; they are modelled as \<open>nat\<close>, since a sum
  \<^verbatim>\<open>index + count\<close> with \<open>count > 0\<close> only arises after a character was read inside the
  array, whose length is below \<open>2^64\<close>.
\<close>

datatype outcome = Matched nat | NoMatch | Fault

subsection \<open>Grammars\<close>

text \<open>
  One constructor per class template. \<^verbatim>\<open>Seq<Clause0, Clauses...>\<close> and
  \<^verbatim>\<open>Ord<Clause0, Clauses...>\<close> take at least one clause, so both carry the first clause
  and the list of the others. \<open>Clause name\<close> is a class declared by
  \<^verbatim>\<open>CLAUSE(Name, Body)\<close>: it inherits \<^verbatim>\<open>topdown_match\<close> from its body, which the
  function \<open>rules\<close> of the matcher gives.
\<close>

datatype 'r grammar =
    Start
  | End
  | Char char
  | CharRange char char
  | Plus "'r grammar"
  | Asterisk "'r grammar"
  | Seq "'r grammar" "'r grammar list"
  | Ord "'r grammar" "'r grammar list"
  | Clause 'r

subsection \<open>Leaf matchers\<close>

definition Start_match :: "nat \<Rightarrow> outcome" where
  "Start_match index = (if index = 0 then Matched 0 else NoMatch)"

definition End_match :: "string_view \<Rightarrow> nat \<Rightarrow> outcome" where
  "End_match ctx index = (if index \<ge> sv_size ctx then Matched 0 else NoMatch)"

definition Char_match :: "char \<Rightarrow> string_view \<Rightarrow> nat \<Rightarrow> outcome" where
  "Char_match c ctx index =
     (case sv_at ctx index of
        None \<Rightarrow> Fault
      | Some x \<Rightarrow> if x = c then Matched 1 else NoMatch)"

definition CharRange_match :: "char \<Rightarrow> char \<Rightarrow> string_view \<Rightarrow> nat \<Rightarrow> outcome" where
  "CharRange_match s t ctx index =
     (case sv_at ctx index of
        None \<Rightarrow> Fault
      | Some x \<Rightarrow> if char_val x \<ge> char_val s \<and> char_val x \<le> char_val t
                  then Matched 1 else NoMatch)"

subsection \<open>The matcher\<close>

text \<open>
  The calls the matcher makes: \<open>Match g index\<close> is \<^verbatim>\<open>g.topdown_match(context, index)\<close>;
  \<open>PlusLoop sub index count flag\<close> and \<open>AsteriskLoop sub index count\<close> are the loops of
  \<^verbatim>\<open>Plus\<close> and \<^verbatim>\<open>Asterisk\<close> in the state \<open>count\<close> (and \<open>flag\<close>), about to evaluate
  \<^verbatim>\<open>current = Clause().topdown_match(context, index + count)\<close>, which the source does
  once before the loop and once at the end of each iteration.
\<close>

datatype 'r call =
    Match "'r grammar" nat
  | PlusLoop "'r grammar" nat nat bool
  | AsteriskLoop "'r grammar" nat nat

text \<open>
  Recursion through named clauses and the two loops need not end, so the matcher is a
  partial function: \<open>None\<close> is a call that never returns, \<open>Some r\<close> one that ends with
  the outcome \<open>r\<close>. A \<open>Fault\<close> of a sub-call ends the callers as well.
\<close>

partial_function (option) run ::
  "('r \<Rightarrow> 'r grammar) \<Rightarrow> string_view \<Rightarrow> 'r call \<Rightarrow> outcome option" where
  "run rules ctx cl =
    (case cl of
      Match g index \<Rightarrow>
        (case g of
          Start \<Rightarrow> Some (Start_match index)
        | End \<Rightarrow> Some (End_match ctx index)
        | Char c \<Rightarrow> Some (Char_match c ctx index)
        | CharRange s t \<Rightarrow> Some (CharRange_match s t ctx index)
        | Plus sub \<Rightarrow> run rules ctx (PlusLoop sub index 0 False)
        | Asterisk sub \<Rightarrow> run rules ctx (AsteriskLoop sub index 0)
        | Seq clause0 clauses \<Rightarrow>
            (case clauses of
              [] \<Rightarrow> run rules ctx (Match clause0 index)
            | clause1 # rest \<Rightarrow> do {
                fst' \<leftarrow> run rules ctx (Match clause0 index);
                case fst' of
                  Matched a \<Rightarrow> do {
                    snd' \<leftarrow> run rules ctx (Match (Seq clause1 rest) (index + a));
                    case snd' of
                      Matched b \<Rightarrow> Some (Matched (a + b))
                    | NoMatch \<Rightarrow> Some NoMatch
                    | Fault \<Rightarrow> Some Fault }
                | NoMatch \<Rightarrow> Some NoMatch
                | Fault \<Rightarrow> Some Fault })
        | Ord clause0 clauses \<Rightarrow>
            (case clauses of
              [] \<Rightarrow> run rules ctx (Match clause0 index)
            | clause1 # rest \<Rightarrow> do {
                fst' \<leftarrow> run rules ctx (Match clause0 index);
                case fst' of
                  Matched a \<Rightarrow> Some (Matched a)
                | NoMatch \<Rightarrow> run rules ctx (Match (Ord clause1 rest) index)
                | Fault \<Rightarrow> Some Fault })
        | Clause name \<Rightarrow> run rules ctx (Match (rules name) index))
    | PlusLoop sub index count flag \<Rightarrow> do {
        current \<leftarrow> run rules ctx (Match sub (index + count));
        case current of
          Matched c \<Rightarrow> run rules ctx (PlusLoop sub index (count + c) True)
        | NoMatch \<Rightarrow> Some (if flag then Matched count else NoMatch)
        | Fault \<Rightarrow> Some Fault }
    | AsteriskLoop sub index count \<Rightarrow> do {
        current \<leftarrow> run rules ctx (Match sub (index + count));
        case current of
          Matched c \<Rightarrow> run rules ctx (AsteriskLoop sub index (count + c))
        | NoMatch \<Rightarrow> Some (Matched count)
        | Fault \<Rightarrow> Some Fault })"

definition topdown_match ::
  "('r \<Rightarrow> 'r grammar) \<Rightarrow> 'r grammar \<Rightarrow> string_view \<Rightarrow> nat \<Rightarrow> outcome option" where
  "topdown_match rules g ctx index = run rules ctx (Match g index)"

definition Plus_loop ::
  "('r \<Rightarrow> 'r grammar) \<Rightarrow> 'r grammar \<Rightarrow> string_view \<Rightarrow> nat \<Rightarrow> nat \<Rightarrow> bool \<Rightarrow> outcome option" where
  "Plus_loop rules sub ctx index count flag = run rules ctx (PlusLoop sub index count flag)"

definition Asterisk_loop ::
  "('r \<Rightarrow> 'r grammar) \<Rightarrow> 'r grammar \<Rightarrow> string_view \<Rightarrow> nat \<Rightarrow> nat \<Rightarrow> outcome option" where
  "Asterisk_loop rules sub ctx index count = run rules ctx (AsteriskLoop sub index count)"

subsection \<open>Views used as inputs\<close>

text \<open>
  \<^verbatim>\<open>v.substr(pos, n)\<close> for \<open>pos \<le> sv_size v\<close>: the same array from \<open>pos\<close> on, with at most
  \<open>n\<close> characters in view. The characters behind the view stay in the array.
\<close>

definition substr :: "string_view \<Rightarrow> nat \<Rightarrow> nat \<Rightarrow> string_view" where
  "substr v pos n = \<lparr>sv_data = drop pos (sv_data v), sv_size = min n (sv_size v - pos)\<rparr>"

subsection \<open>The iterations of a repetition\<close>

text \<open>
  \<open>successes rules sub ctx index cs\<close>: starting at \<open>index\<close>, the clause \<open>sub\<close> succeeds
  \<open>length cs\<close> times in a row, each time where the previous match ended, consuming the
  lengths \<open>cs\<close>. \<open>iterations\<close>: and then it fails. These are the runs of the loops of
  \<^verbatim>\<open>Plus\<close> and \<^verbatim>\<open>Asterisk\<close> that end with a result.
\<close>

fun successes ::
  "('r \<Rightarrow> 'r grammar) \<Rightarrow> 'r grammar \<Rightarrow> string_view \<Rightarrow> nat \<Rightarrow> nat list \<Rightarrow> bool" where
  "successes rules sub ctx index [] = True"
| "successes rules sub ctx index (c # cs) =
     (topdown_match rules sub ctx index = Some (Matched c) \<and>
      successes rules sub ctx (index + c) cs)"

definition iterations ::
  "('r \<Rightarrow> 'r grammar) \<Rightarrow> 'r grammar \<Rightarrow> string_view \<Rightarrow> nat \<Rightarrow> nat list \<Rightarrow> bool" where
  "iterations rules sub ctx index cs =
     (successes rules sub ctx index cs \<and>
      topdown_match rules sub ctx (index + sum_list cs) = Some NoMatch)"

text \<open>
  Adding \<open>a\<close> units to what a match consumed, as \<^verbatim>\<open>Seq\<close> does with \<^verbatim>\<open>*fst + *snd\<close>
  and as a loop does that starts with \<open>a\<close> units counted.
\<close>

definition add_consumed :: "nat \<Rightarrow> outcome \<Rightarrow> outcome" where
  "add_consumed a r =
     (case r of Matched b \<Rightarrow> Matched (a + b) | NoMatch \<Rightarrow> NoMatch | Fault \<Rightarrow> Fault)"

subsection \<open>The arithmetic grammar of main.cpp\<close>

datatype rule = Digit | Number | Additive | Multicative | Primary | Toplevel

fun clause :: "rule \<Rightarrow> rule grammar" where
  "clause Digit = CharRange CHR ''0'' CHR ''9''"
| "clause Number = Plus (Clause Digit)"
| "clause Additive =
     Ord (Seq (Clause Multicative) [Char CHR ''+'', Clause Additive]) [Clause Multicative]"
| "clause Multicative =
     Ord (Seq (Clause Primary) [Char CHR ''*'', Clause Multicative]) [Clause Primary]"
| "clause Primary =
     Ord (Seq (Char CHR ''('') [Clause Additive, Char CHR '')'']) [Clause Number]"
| "clause Toplevel = Seq Start [Clause Additive, End]"

section \<open>The equations of the matcher, one per class\<close>

lemma topdown_match_Start:
  "topdown_match rules Start ctx index = Some (Start_match index)"
  unfolding topdown_match_def by (subst run.simps) simp

lemma topdown_match_End:
  "topdown_match rules End ctx index = Some (End_match ctx index)"
  unfolding topdown_match_def by (subst run.simps) simp

lemma topdown_match_Char:
  "topdown_match rules (Char c) ctx index = Some (Char_match c ctx index)"
  unfolding topdown_match_def by (subst run.simps) simp

lemma topdown_match_CharRange:
  "topdown_match rules (CharRange s t) ctx index = Some (CharRange_match s t ctx index)"
  unfolding topdown_match_def by (subst run.simps) simp

lemma topdown_match_Plus:
  "topdown_match rules (Plus sub) ctx index = Plus_loop rules sub ctx index 0 False"
  unfolding topdown_match_def Plus_loop_def by (subst run.simps) simp

lemma topdown_match_Asterisk:
  "topdown_match rules (Asterisk sub) ctx index = Asterisk_loop rules sub ctx index 0"
  unfolding topdown_match_def Asterisk_loop_def by (subst run.simps) simp

lemma Plus_loop_unfold:
  "Plus_loop rules sub ctx index count flag =
     (case topdown_match rules sub ctx (index + count) of
        None \<Rightarrow> None
      | Some (Matched c) \<Rightarrow> Plus_loop rules sub ctx index (count + c) True
      | Some NoMatch \<Rightarrow> Some (if flag then Matched count else NoMatch)
      | Some Fault \<Rightarrow> Some Fault)"
  unfolding topdown_match_def Plus_loop_def
  by (subst run.simps) (simp split: option.split outcome.split)

lemma Asterisk_loop_unfold:
  "Asterisk_loop rules sub ctx index count =
     (case topdown_match rules sub ctx (index + count) of
        None \<Rightarrow> None
      | Some (Matched c) \<Rightarrow> Asterisk_loop rules sub ctx index (count + c)
      | Some NoMatch \<Rightarrow> Some (Matched count)
      | Some Fault \<Rightarrow> Some Fault)"
  unfolding topdown_match_def Asterisk_loop_def
  by (subst run.simps) (simp split: option.split outcome.split)

lemma topdown_match_Seq_single:
  "topdown_match rules (Seq clause0 []) ctx index = topdown_match rules clause0 ctx index"
  unfolding topdown_match_def by (subst run.simps) simp

lemma topdown_match_Seq:
  "topdown_match rules (Seq clause0 (clause1 # rest)) ctx index =
     (case topdown_match rules clause0 ctx index of
        None \<Rightarrow> None
      | Some (Matched a) \<Rightarrow>
          (case topdown_match rules (Seq clause1 rest) ctx (index + a) of
             None \<Rightarrow> None
           | Some (Matched b) \<Rightarrow> Some (Matched (a + b))
           | Some NoMatch \<Rightarrow> Some NoMatch
           | Some Fault \<Rightarrow> Some Fault)
      | Some NoMatch \<Rightarrow> Some NoMatch
      | Some Fault \<Rightarrow> Some Fault)"
  unfolding topdown_match_def
  by (subst run.simps) (simp split: option.split outcome.split)

lemma topdown_match_Ord_single:
  "topdown_match rules (Ord clause0 []) ctx index = topdown_match rules clause0 ctx index"
  unfolding topdown_match_def by (subst run.simps) simp

lemma topdown_match_Ord:
  "topdown_match rules (Ord clause0 (clause1 # rest)) ctx index =
     (case topdown_match rules clause0 ctx index of
        None \<Rightarrow> None
      | Some (Matched a) \<Rightarrow> Some (Matched a)
      | Some NoMatch \<Rightarrow> topdown_match rules (Ord clause1 rest) ctx index
      | Some Fault \<Rightarrow> Some Fault)"
  unfolding topdown_match_def
  by (subst run.simps) (simp split: option.split outcome.split)

lemma topdown_match_Clause:
  "topdown_match rules (Clause name) ctx index = topdown_match rules (rules name) ctx index"
  unfolding topdown_match_def by (subst run.simps) simp

lemmas topdown_match_simps =
  topdown_match_Start topdown_match_End topdown_match_Char topdown_match_CharRange
  topdown_match_Plus topdown_match_Asterisk topdown_match_Seq_single topdown_match_Seq
  topdown_match_Ord_single topdown_match_Ord topdown_match_Clause

section \<open>Induction over the calls that return\<close>

text \<open>
  The matcher is the least solution of its equation, so a property of every call that
  returns follows by induction over the calls made: each case may use the property for
  the sub-calls, which returned as well.
\<close>

lemma run_Match: "run rules ctx (Match g index) = topdown_match rules g ctx index"
  by (simp add: topdown_match_def)

lemma run_PlusLoop:
  "run rules ctx (PlusLoop sub index count flag) = Plus_loop rules sub ctx index count flag"
  by (simp add: Plus_loop_def)

lemma run_AsteriskLoop:
  "run rules ctx (AsteriskLoop sub index count) = Asterisk_loop rules sub ctx index count"
  by (simp add: Asterisk_loop_def)

lemma run_induct [consumes 1, case_names Start End Char CharRange Plus Asterisk
    Seq1 SeqStop SeqNext Ord1 OrdStop OrdNext Clause
    PlusStop PlusFault PlusNext AsteriskStop AsteriskFault AsteriskNext]:
  assumes major: "run rules ctx cl = Some y"
    and Start: "\<And>index. P (Match Start index) (Start_match index)"
    and End: "\<And>index. P (Match End index) (End_match ctx index)"
    and Char: "\<And>c index. P (Match (Char c) index) (Char_match c ctx index)"
    and CharRange: "\<And>s t index. P (Match (CharRange s t) index) (CharRange_match s t ctx index)"
    and Plus: "\<And>sub index y.
        \<lbrakk>Plus_loop rules sub ctx index 0 False = Some y; P (PlusLoop sub index 0 False) y\<rbrakk>
        \<Longrightarrow> P (Match (Plus sub) index) y"
    and Asterisk: "\<And>sub index y.
        \<lbrakk>Asterisk_loop rules sub ctx index 0 = Some y; P (AsteriskLoop sub index 0) y\<rbrakk>
        \<Longrightarrow> P (Match (Asterisk sub) index) y"
    and Seq1: "\<And>clause0 index y.
        \<lbrakk>topdown_match rules clause0 ctx index = Some y; P (Match clause0 index) y\<rbrakk>
        \<Longrightarrow> P (Match (Seq clause0 []) index) y"
    and SeqStop: "\<And>clause0 clause1 rest index y.
        \<lbrakk>topdown_match rules clause0 ctx index = Some y; P (Match clause0 index) y;
         y = NoMatch \<or> y = Fault\<rbrakk>
        \<Longrightarrow> P (Match (Seq clause0 (clause1 # rest)) index) y"
    and SeqNext: "\<And>clause0 clause1 rest index a y.
        \<lbrakk>topdown_match rules clause0 ctx index = Some (Matched a);
         P (Match clause0 index) (Matched a);
         topdown_match rules (Seq clause1 rest) ctx (index + a) = Some y;
         P (Match (Seq clause1 rest) (index + a)) y\<rbrakk>
        \<Longrightarrow> P (Match (Seq clause0 (clause1 # rest)) index)
              (case y of Matched b \<Rightarrow> Matched (a + b) | NoMatch \<Rightarrow> NoMatch | Fault \<Rightarrow> Fault)"
    and Ord1: "\<And>clause0 index y.
        \<lbrakk>topdown_match rules clause0 ctx index = Some y; P (Match clause0 index) y\<rbrakk>
        \<Longrightarrow> P (Match (Ord clause0 []) index) y"
    and OrdStop: "\<And>clause0 clause1 rest index y.
        \<lbrakk>topdown_match rules clause0 ctx index = Some y; P (Match clause0 index) y;
         y \<noteq> NoMatch\<rbrakk>
        \<Longrightarrow> P (Match (Ord clause0 (clause1 # rest)) index) y"
    and OrdNext: "\<And>clause0 clause1 rest index y.
        \<lbrakk>topdown_match rules clause0 ctx index = Some NoMatch;
         P (Match clause0 index) NoMatch;
         topdown_match rules (Ord clause1 rest) ctx index = Some y;
         P (Match (Ord clause1 rest) index) y\<rbrakk>
        \<Longrightarrow> P (Match (Ord clause0 (clause1 # rest)) index) y"
    and Clause: "\<And>name index y.
        \<lbrakk>topdown_match rules (rules name) ctx index = Some y; P (Match (rules name) index) y\<rbrakk>
        \<Longrightarrow> P (Match (Clause name) index) y"
    and PlusStop: "\<And>sub index count flag.
        \<lbrakk>topdown_match rules sub ctx (index + count) = Some NoMatch;
         P (Match sub (index + count)) NoMatch\<rbrakk>
        \<Longrightarrow> P (PlusLoop sub index count flag) (if flag then Matched count else NoMatch)"
    and PlusFault: "\<And>sub index count flag.
        \<lbrakk>topdown_match rules sub ctx (index + count) = Some Fault;
         P (Match sub (index + count)) Fault\<rbrakk>
        \<Longrightarrow> P (PlusLoop sub index count flag) Fault"
    and PlusNext: "\<And>sub index count flag c y.
        \<lbrakk>topdown_match rules sub ctx (index + count) = Some (Matched c);
         P (Match sub (index + count)) (Matched c);
         Plus_loop rules sub ctx index (count + c) True = Some y;
         P (PlusLoop sub index (count + c) True) y\<rbrakk>
        \<Longrightarrow> P (PlusLoop sub index count flag) y"
    and AsteriskStop: "\<And>sub index count.
        \<lbrakk>topdown_match rules sub ctx (index + count) = Some NoMatch;
         P (Match sub (index + count)) NoMatch\<rbrakk>
        \<Longrightarrow> P (AsteriskLoop sub index count) (Matched count)"
    and AsteriskFault: "\<And>sub index count.
        \<lbrakk>topdown_match rules sub ctx (index + count) = Some Fault;
         P (Match sub (index + count)) Fault\<rbrakk>
        \<Longrightarrow> P (AsteriskLoop sub index count) Fault"
    and AsteriskNext: "\<And>sub index count c y.
        \<lbrakk>topdown_match rules sub ctx (index + count) = Some (Matched c);
         P (Match sub (index + count)) (Matched c);
         Asterisk_loop rules sub ctx index (count + c) = Some y;
         P (AsteriskLoop sub index (count + c)) y\<rbrakk>
        \<Longrightarrow> P (AsteriskLoop sub index count) y"
  shows "P cl y"
proof -
  have "rules = rules \<longrightarrow> ctx = ctx \<longrightarrow> run rules ctx cl = Some y \<and> P cl y"
  proof (rule run.raw_induct[where P = "\<lambda>r c cl y. r = rules \<longrightarrow> c = ctx \<longrightarrow> run rules ctx cl = Some y \<and> P cl y",
        OF _ major], goal_cases)
    case (1 f r c cl y)
    show ?case
    proof (intro impI)
      assume eq: "r = rules" "c = ctx"
      have IH: "run rules ctx cl' = Some y' \<and> P cl' y'" if "f rules ctx cl' = Some y'" for cl' y'
        using 1(1)[OF that] by simp
      note body = 1(2)[unfolded eq]
      show "run rules ctx cl = Some y \<and> P cl y"
      proof (cases cl)
        case (Match g index)
        show ?thesis
        proof (cases g)
          case Start
          with Match body show ?thesis
            using assms(2) by (auto simp: run_Match topdown_match_simps)
        next
          case End
          with Match body show ?thesis
            using assms(3) by (auto simp: run_Match topdown_match_simps)
        next
          case (Char c)
          with Match body show ?thesis
            using assms(4) by (auto simp: run_Match topdown_match_simps)
        next
          case (CharRange s t)
          with Match body show ?thesis
            using assms(5) by (auto simp: run_Match topdown_match_simps)
        next
          case (Plus sub)
          with Match body show ?thesis
            using assms(6) by (auto simp: run_Match run_PlusLoop topdown_match_simps dest!: IH)
        next
          case (Asterisk sub)
          with Match body show ?thesis
            using assms(7) by (auto simp: run_Match run_AsteriskLoop topdown_match_simps dest!: IH)
        next
          case (Seq clause0 clauses)
          show ?thesis
          proof (cases clauses)
            case Nil
            with Seq Match body show ?thesis
              using assms(8) by (auto simp: run_Match topdown_match_simps dest!: IH)
          next
            case (Cons clause1 rest)
            from Cons Seq Match body obtain r1 where
              r1: "f rules ctx (Match clause0 index) = Some r1"
              by (auto simp: bind_eq_Some_conv)
            show ?thesis
            proof (cases r1)
              case (Matched a)
              from Cons Seq Match body r1 Matched obtain r2 where
                r2: "f rules ctx (Match (Seq clause1 rest) (index + a)) = Some r2"
                and y0: "(case r2 of Matched b \<Rightarrow> Some (Matched (a + b)) | NoMatch \<Rightarrow> Some NoMatch
                          | Fault \<Rightarrow> Some Fault) = Some y"
                by (auto simp: bind_eq_Some_conv)
              from y0 have y: "y = (case r2 of Matched b \<Rightarrow> Matched (a + b) | NoMatch \<Rightarrow> NoMatch
                          | Fault \<Rightarrow> Fault)"
                by (cases r2) auto
              from IH[OF r1] IH[OF r2] Matched y Cons Seq Match show ?thesis
                using assms(10)[of clause0 index a clause1 rest r2]
                by (auto simp: run_Match topdown_match_simps split: outcome.splits)
            next
              case NoMatch
              with Cons Seq Match body r1 IH[OF r1] show ?thesis
                using assms(9)[of clause0 index r1 clause1 rest]
                by (auto simp: run_Match topdown_match_simps)
            next
              case Fault
              with Cons Seq Match body r1 IH[OF r1] show ?thesis
                using assms(9)[of clause0 index r1 clause1 rest]
                by (auto simp: run_Match topdown_match_simps)
            qed
          qed
        next
          case (Ord clause0 clauses)
          show ?thesis
          proof (cases clauses)
            case Nil
            with Ord Match body show ?thesis
              using assms(11) by (auto simp: run_Match topdown_match_simps dest!: IH)
          next
            case (Cons clause1 rest)
            from Cons Ord Match body obtain r1 where
              r1: "f rules ctx (Match clause0 index) = Some r1"
              by (auto simp: bind_eq_Some_conv)
            show ?thesis
            proof (cases "r1 = NoMatch")
              case True
              from Cons Ord Match body r1 True have
                r2: "f rules ctx (Match (Ord clause1 rest) index) = Some y"
                by (auto simp: bind_eq_Some_conv)
              from IH[OF r1] IH[OF r2] True Cons Ord Match show ?thesis
                using assms(13)[of clause0 index clause1 rest y]
                by (auto simp: run_Match topdown_match_simps)
            next
              case False
              with Cons Ord Match body r1 have "y = r1"
                by (cases r1) (auto simp: bind_eq_Some_conv)
              with False Cons Ord Match IH[OF r1] show ?thesis
                using assms(12)[of clause0 index r1 clause1 rest]
                by (cases r1) (auto simp: run_Match topdown_match_simps)
            qed
          qed
        next
          case (Clause name)
          with Match body show ?thesis
            using assms(14) by (auto simp: run_Match topdown_match_simps dest!: IH)
        qed
      next
        case (PlusLoop sub index count flag)
        from PlusLoop body obtain r1 where
          r1: "f rules ctx (Match sub (index + count)) = Some r1"
          by (auto simp: bind_eq_Some_conv)
        show ?thesis
        proof (cases r1)
          case (Matched c)
          from PlusLoop body r1 Matched have
            r2: "f rules ctx (PlusLoop sub index (count + c) True) = Some y"
            by (auto simp: bind_eq_Some_conv)
          from IH[OF r1] IH[OF r2] Matched PlusLoop show ?thesis
            using assms(17)[of sub index count c y flag]
            by (auto simp: run_Match run_PlusLoop Plus_loop_unfold[of _ _ _ index count])
        next
          case NoMatch
          with PlusLoop body r1 IH[OF r1] show ?thesis
            using assms(15)[of sub index count flag]
            by (auto simp: run_Match run_PlusLoop Plus_loop_unfold[of _ _ _ index count])
        next
          case Fault
          with PlusLoop body r1 IH[OF r1] show ?thesis
            using assms(16)[of sub index count flag]
            by (auto simp: run_Match run_PlusLoop Plus_loop_unfold[of _ _ _ index count])
        qed
      next
        case (AsteriskLoop sub index count)
        from AsteriskLoop body obtain r1 where
          r1: "f rules ctx (Match sub (index + count)) = Some r1"
          by (auto simp: bind_eq_Some_conv)
        show ?thesis
        proof (cases r1)
          case (Matched c)
          from AsteriskLoop body r1 Matched have
            r2: "f rules ctx (AsteriskLoop sub index (count + c)) = Some y"
            by (auto simp: bind_eq_Some_conv)
          from IH[OF r1] IH[OF r2] Matched AsteriskLoop show ?thesis
            using assms(20)[of sub index count c y]
            by (auto simp: run_Match run_AsteriskLoop Asterisk_loop_unfold[of _ _ _ index count])
        next
          case NoMatch
          with AsteriskLoop body r1 IH[OF r1] show ?thesis
            using assms(18)[of sub index count]
            by (auto simp: run_Match run_AsteriskLoop Asterisk_loop_unfold[of _ _ _ index count])
        next
          case Fault
          with AsteriskLoop body r1 IH[OF r1] show ?thesis
            using assms(19)[of sub index count]
            by (auto simp: run_Match run_AsteriskLoop Asterisk_loop_unfold[of _ _ _ index count])
        qed
      qed
    qed
  qed
  then show ?thesis by simp
qed

section \<open>The loops of Plus and Asterisk\<close>

text \<open>Induction over the iterations of a loop that returns.\<close>

lemma Asterisk_loop_induct [consumes 1, case_names Stop Fault Next]:
  assumes major: "Asterisk_loop rules sub ctx index count = Some y"
    and Stop: "\<And>count. topdown_match rules sub ctx (index + count) = Some NoMatch
        \<Longrightarrow> Q count (Matched count)"
    and Fault: "\<And>count. topdown_match rules sub ctx (index + count) = Some Fault
        \<Longrightarrow> Q count Fault"
    and Next: "\<And>count c y.
        \<lbrakk>topdown_match rules sub ctx (index + count) = Some (Matched c);
         Asterisk_loop rules sub ctx index (count + c) = Some y; Q (count + c) y\<rbrakk>
        \<Longrightarrow> Q count y"
  shows "Q count y"
proof -
  define P where "P = (\<lambda>cl y. case cl of
      AsteriskLoop sub' index' count' \<Rightarrow> sub' = sub \<longrightarrow> index' = index \<longrightarrow> Q count' y
    | _ \<Rightarrow> True)"
  from major have "run rules ctx (AsteriskLoop sub index count) = Some y"
    by (simp add: Asterisk_loop_def)
  then have "P (AsteriskLoop sub index count) y"
    by (induction rule: run_induct) (auto simp: P_def intro: Stop Fault Next)
  then show ?thesis by (simp add: P_def)
qed

lemma Plus_loop_induct [consumes 1, case_names Stop Fault Next]:
  assumes major: "Plus_loop rules sub ctx index count flag = Some y"
    and Stop: "\<And>count flag. topdown_match rules sub ctx (index + count) = Some NoMatch
        \<Longrightarrow> Q count flag (if flag then Matched count else NoMatch)"
    and Fault: "\<And>count flag. topdown_match rules sub ctx (index + count) = Some Fault
        \<Longrightarrow> Q count flag Fault"
    and Next: "\<And>count flag c y.
        \<lbrakk>topdown_match rules sub ctx (index + count) = Some (Matched c);
         Plus_loop rules sub ctx index (count + c) True = Some y; Q (count + c) True y\<rbrakk>
        \<Longrightarrow> Q count flag y"
  shows "Q count flag y"
proof -
  define P where "P = (\<lambda>cl y. case cl of
      PlusLoop sub' index' count' flag' \<Rightarrow> sub' = sub \<longrightarrow> index' = index \<longrightarrow> Q count' flag' y
    | _ \<Rightarrow> True)"
  from major have "run rules ctx (PlusLoop sub index count flag) = Some y"
    by (simp add: Plus_loop_def)
  then have "P (PlusLoop sub index count flag) y"
  proof (induction rule: run_induct)
    case (PlusStop sub' index' count' flag')
    then show ?case using Stop[of count' flag'] by (cases flag') (auto simp: P_def)
  qed (auto simp: P_def intro: Fault Next)
  then show ?thesis by (simp add: P_def)
qed

lemma option_eqI: "(\<And>y. a = Some y \<longleftrightarrow> b = Some y) \<Longrightarrow> a = b" for a b :: "'a option"
  by (cases a; cases b) auto

lemma Plus_loop_True_imp:
  "Plus_loop rules sub ctx index count flag = Some y \<Longrightarrow> flag
   \<Longrightarrow> Asterisk_loop rules sub ctx index count = Some y"
proof (induction rule: Plus_loop_induct)
  case (Stop count flag)
  then show ?case by (simp add: Asterisk_loop_unfold[of _ _ _ index count])
next
  case (Fault count flag)
  then show ?case by (simp add: Asterisk_loop_unfold[of _ _ _ index count])
next
  case (Next count flag c y)
  then show ?case by (simp add: Asterisk_loop_unfold[of _ _ _ index count])
qed

lemma Asterisk_loop_imp:
  "Asterisk_loop rules sub ctx index count = Some y
   \<Longrightarrow> Plus_loop rules sub ctx index count True = Some y"
proof (induction rule: Asterisk_loop_induct)
  case (Stop count)
  then show ?case by (simp add: Plus_loop_unfold[of _ _ _ index count])
next
  case (Fault count)
  then show ?case by (simp add: Plus_loop_unfold[of _ _ _ index count])
next
  case (Next count c y)
  then show ?case by (simp add: Plus_loop_unfold[of _ _ _ index count])
qed

lemma Plus_loop_True:
  "Plus_loop rules sub ctx index count True = Asterisk_loop rules sub ctx index count"
  by (rule option_eqI) (blast intro: Plus_loop_True_imp Asterisk_loop_imp)


text \<open>
  Once \<open>flag\<close> is set, the loop of \<^verbatim>\<open>Plus\<close> is the loop of \<^verbatim>\<open>Asterisk\<close>; and a loop
  that starts with \<open>n\<close> units counted is the loop started afresh \<open>n\<close> units further on.
\<close>

lemma Asterisk_loop_shift_imp:
  "Asterisk_loop rules sub ctx index m = Some y \<Longrightarrow> m = n + count
   \<Longrightarrow> \<exists>y'. Asterisk_loop rules sub ctx (index + n) count = Some y' \<and> y = add_consumed n y'"
proof (induction arbitrary: count rule: Asterisk_loop_induct)
  case (Stop m)
  then show ?case
    by (simp add: Asterisk_loop_unfold[of _ _ _ "index + n" count] add.assoc add_consumed_def)
next
  case (Fault m)
  then show ?case
    by (simp add: Asterisk_loop_unfold[of _ _ _ "index + n" count] add.assoc add_consumed_def)
next
  case (Next m c y)
  from Next.IH[of "count + c"] Next.prems obtain y' where
    "Asterisk_loop rules sub ctx (index + n) (count + c) = Some y'" "y = add_consumed n y'"
    by (auto simp: add.assoc)
  with Next.hyps Next.prems show ?case
    by (simp add: Asterisk_loop_unfold[of _ _ _ "index + n" count] add.assoc)
qed

lemma Asterisk_loop_unshift_imp:
  "Asterisk_loop rules sub ctx (index + n) count = Some y'
   \<Longrightarrow> Asterisk_loop rules sub ctx index (n + count) = Some (add_consumed n y')"
proof (induction rule: Asterisk_loop_induct)
  case (Stop count)
  then show ?case
    by (simp add: Asterisk_loop_unfold[of _ _ _ index "n + count"] add.assoc add_consumed_def)
next
  case (Fault count)
  then show ?case
    by (simp add: Asterisk_loop_unfold[of _ _ _ index "n + count"] add.assoc add_consumed_def)
next
  case (Next count c y)
  then show ?case
    by (simp add: Asterisk_loop_unfold[of _ _ _ index "n + count"] add.assoc)
qed

lemma Asterisk_loop_shift:
  "Asterisk_loop rules sub ctx index (n + count) =
   map_option (add_consumed n) (Asterisk_loop rules sub ctx (index + n) count)"
proof (rule option_eqI)
  fix y
  show "Asterisk_loop rules sub ctx index (n + count) = Some y \<longleftrightarrow>
        map_option (add_consumed n) (Asterisk_loop rules sub ctx (index + n) count) = Some y"
    using Asterisk_loop_shift_imp[of rules sub ctx index "n + count" y n count]
      Asterisk_loop_unshift_imp[of rules sub ctx index n count]
    by auto
qed

lemma Asterisk_loop_greedy:
  "Asterisk_loop rules sub ctx index count = Some y \<Longrightarrow> y = Matched k
   \<Longrightarrow> topdown_match rules sub ctx (index + k) = Some NoMatch"
  by (induction rule: Asterisk_loop_induct) auto

lemma Plus_loop_greedy:
  "Plus_loop rules sub ctx index count flag = Some y \<Longrightarrow> y = Matched k
   \<Longrightarrow> topdown_match rules sub ctx (index + k) = Some NoMatch"
  by (induction rule: Plus_loop_induct) (auto split: if_splits)

text \<open>A loop ends with a success exactly when its iterations end with a failure.\<close>

lemma iterations_Nil:
  "iterations rules sub ctx index [] \<longleftrightarrow> topdown_match rules sub ctx index = Some NoMatch"
  by (simp add: iterations_def)

lemma iterations_Cons:
  "iterations rules sub ctx index (c # cs) \<longleftrightarrow>
     topdown_match rules sub ctx index = Some (Matched c) \<and>
     iterations rules sub ctx (index + c) cs"
  by (simp add: iterations_def add.assoc)

lemma iterations_Asterisk_loop:
  "iterations rules sub ctx (index + count) cs
   \<Longrightarrow> Asterisk_loop rules sub ctx index count = Some (Matched (count + sum_list cs))"
proof (induction cs arbitrary: count)
  case Nil
  then show ?case
    by (simp add: iterations_Nil Asterisk_loop_unfold[of _ _ _ index count])
next
  case (Cons c cs)
  from Cons.prems have c: "topdown_match rules sub ctx (index + count) = Some (Matched c)"
    and rest: "iterations rules sub ctx (index + (count + c)) cs"
    by (simp_all add: iterations_Cons add.assoc)
  from Cons.IH[OF rest] c show ?case
    by (simp add: Asterisk_loop_unfold[of _ _ _ index count] add.assoc)
qed

lemma Asterisk_loop_iterations:
  "Asterisk_loop rules sub ctx index count = Some y \<Longrightarrow> y = Matched k
   \<Longrightarrow> \<exists>cs. iterations rules sub ctx (index + count) cs \<and> k = count + sum_list cs"
proof (induction rule: Asterisk_loop_induct)
  case (Stop count)
  then have "iterations rules sub ctx (index + count) [] \<and> k = count + sum_list []"
    by (simp add: iterations_Nil)
  then show ?case by blast
next
  case (Fault count)
  then show ?case by simp
next
  case (Next count c y)
  then obtain cs where "iterations rules sub ctx (index + (count + c)) cs"
    "k = count + c + sum_list cs" by auto
  with Next.hyps have "iterations rules sub ctx (index + count) (c # cs)
      \<and> k = count + sum_list (c # cs)"
    by (simp add: iterations_Cons add.assoc)
  then show ?case by blast
qed

lemma Asterisk_loop_not_NoMatch:
  "Asterisk_loop rules sub ctx index count = Some y \<Longrightarrow> y \<noteq> NoMatch"
  by (induction rule: Asterisk_loop_induct) auto

lemma Asterisk_Matched_iff:
  "topdown_match rules (Asterisk sub) ctx index = Some (Matched k) \<longleftrightarrow>
     (\<exists>cs. iterations rules sub ctx index cs \<and> sum_list cs = k)"
  using iterations_Asterisk_loop[of rules sub ctx index 0]
    Asterisk_loop_iterations[of rules sub ctx index 0 "Matched k" k]
  by (auto simp: topdown_match_simps)

lemma Plus_Matched_iff:
  "topdown_match rules (Plus sub) ctx index = Some (Matched k) \<longleftrightarrow>
     (\<exists>cs. cs \<noteq> [] \<and> iterations rules sub ctx index cs \<and> sum_list cs = k)"
proof
  assume "topdown_match rules (Plus sub) ctx index = Some (Matched k)"
  then obtain c where c: "topdown_match rules sub ctx index = Some (Matched c)"
    and loop: "Asterisk_loop rules sub ctx index c = Some (Matched k)"
    by (auto simp: topdown_match_simps Plus_loop_unfold[of _ _ _ index 0] Plus_loop_True
        split: option.splits outcome.splits)
  from Asterisk_loop_iterations[OF loop] obtain cs where
    "iterations rules sub ctx (index + c) cs" "k = c + sum_list cs" by auto
  with c have "c # cs \<noteq> [] \<and> iterations rules sub ctx index (c # cs) \<and> sum_list (c # cs) = k"
    by (simp add: iterations_Cons)
  then show "\<exists>cs. cs \<noteq> [] \<and> iterations rules sub ctx index cs \<and> sum_list cs = k"
    by blast
next
  assume "\<exists>cs. cs \<noteq> [] \<and> iterations rules sub ctx index cs \<and> sum_list cs = k"
  then obtain c cs where c: "topdown_match rules sub ctx index = Some (Matched c)"
    and rest: "iterations rules sub ctx (index + c) cs" and k: "k = c + sum_list cs"
    by (auto simp: neq_Nil_conv iterations_Cons)
  from iterations_Asterisk_loop[OF rest] c k
  show "topdown_match rules (Plus sub) ctx index = Some (Matched k)"
    by (simp add: topdown_match_simps Plus_loop_unfold[of _ _ _ index 0] Plus_loop_True)
qed

lemma Plus_NoMatch_iff:
  "topdown_match rules (Plus sub) ctx index = Some NoMatch \<longleftrightarrow>
     topdown_match rules sub ctx index = Some NoMatch"
  using Asterisk_loop_not_NoMatch[of rules sub ctx index]
  by (auto simp: topdown_match_simps Plus_loop_unfold[of _ _ _ index 0] Plus_loop_True
      split: option.splits outcome.splits)

lemma Asterisk_not_NoMatch:
  "topdown_match rules (Asterisk sub) ctx index \<noteq> Some NoMatch"
  using Asterisk_loop_not_NoMatch[of rules sub ctx index 0 NoMatch]
  by (auto simp: topdown_match_simps)

text \<open>
  Around \<^verbatim>\<open>Start\<close> at offset 0 both loops run forever: every iteration succeeds and
  consumes nothing.
\<close>

lemma Plus_loop_Start_diverges:
  "Plus_loop rules Start ctx 0 count flag = Some y \<Longrightarrow> count \<noteq> 0"
  by (induction rule: Plus_loop_induct)
    (auto simp: topdown_match_simps Start_match_def split: if_splits)

lemma Asterisk_loop_Start_diverges:
  "Asterisk_loop rules Start ctx 0 count = Some y \<Longrightarrow> count \<noteq> 0"
  by (induction rule: Asterisk_loop_induct)
    (auto simp: topdown_match_simps Start_match_def split: if_splits)

lemma Plus_Start_None: "topdown_match rules (Plus Start) ctx 0 = None"
  using Plus_loop_Start_diverges[of rules ctx 0 False]
  by (cases "topdown_match rules (Plus Start) ctx 0") (auto simp: topdown_match_simps)

lemma Asterisk_Start_None: "topdown_match rules (Asterisk Start) ctx 0 = None"
  using Asterisk_loop_Start_diverges[of rules ctx 0]
  by (cases "topdown_match rules (Asterisk Start) ctx 0") (auto simp: topdown_match_simps)


section \<open>Consumed characters lie in the array\<close>

text \<open>
  A match that consumes anything ends inside the array of the view: every consumed
  character was read there. It need not end inside the view (see claim C3).
\<close>

lemma consumed_within_array_call:
  "run rules ctx cl = Some y \<Longrightarrow>
   (case cl of
      Match g index \<Rightarrow> \<forall>k. y = Matched k \<longrightarrow> 0 < k \<longrightarrow> index + k \<le> length (sv_data ctx)
    | PlusLoop sub index count flag \<Rightarrow>
        (0 < count \<longrightarrow> index + count \<le> length (sv_data ctx)) \<longrightarrow>
        (\<forall>k. y = Matched k \<longrightarrow> 0 < k \<longrightarrow> index + k \<le> length (sv_data ctx))
    | AsteriskLoop sub index count \<Rightarrow>
        (0 < count \<longrightarrow> index + count \<le> length (sv_data ctx)) \<longrightarrow>
        (\<forall>k. y = Matched k \<longrightarrow> 0 < k \<longrightarrow> index + k \<le> length (sv_data ctx)))"
proof (induction rule: run_induct)
  case (Start index)
  then show ?case by (simp add: Start_match_def)
next
  case (End index)
  then show ?case by (simp add: End_match_def)
next
  case (Char c index)
  then show ?case by (auto simp: Char_match_def sv_at_def split: option.splits if_splits)
next
  case (CharRange s t index)
  then show ?case by (auto simp: CharRange_match_def sv_at_def split: option.splits if_splits)
next
  case (SeqNext clause0 clause1 rest index a y)
  then show ?case by (cases y; cases "a = 0") (auto simp: add.assoc)
next
  case (PlusNext sub index count flag c y)
  then show ?case by (cases "c = 0") (auto simp: add.assoc)
next
  case (AsteriskNext sub index count c y)
  then show ?case by (cases "c = 0") (auto simp: add.assoc)
qed (auto split: if_splits)

lemma consumed_within_array:
  "topdown_match rules g ctx index = Some (Matched k) \<Longrightarrow> 0 < k
   \<Longrightarrow> index + k \<le> length (sv_data ctx)"
  using consumed_within_array_call[of rules ctx "Match g index" "Matched k"]
  by (simp add: topdown_match_def)

lemma successes_bound:
  assumes adv: "\<forall>j c. topdown_match rules sub ctx j = Some (Matched c) \<longrightarrow> 1 \<le> c"
  shows "successes rules sub ctx index cs \<Longrightarrow> cs \<noteq> []
         \<Longrightarrow> index + length cs \<le> length (sv_data ctx)"
proof (induction cs arbitrary: index)
  case Nil
  then show ?case by simp
next
  case (Cons c cs)
  from Cons.prems have c: "topdown_match rules sub ctx index = Some (Matched c)"
    and rest: "successes rules sub ctx (index + c) cs" by simp_all
  from adv c have "1 \<le> c" by blast
  with consumed_within_array[OF c] have le: "index + c \<le> length (sv_data ctx)" by simp
  show ?case
  proof (cases cs)
    case Nil
    with le \<open>1 \<le> c\<close> show ?thesis by simp
  next
    case (Cons c' cs')
    with Cons.IH[OF rest] \<open>1 \<le> c\<close> show ?thesis by simp
  qed
qed

lemma Asterisk_loop_returns:
  assumes ret: "\<forall>j. topdown_match rules sub ctx j \<noteq> None"
    and adv: "\<forall>j c. topdown_match rules sub ctx j = Some (Matched c) \<longrightarrow> 1 \<le> c"
  shows "Asterisk_loop rules sub ctx index count \<noteq> None"
proof (induction "length (sv_data ctx) - (index + count)" arbitrary: count rule: less_induct)
  case less
  from ret obtain r where r: "topdown_match rules sub ctx (index + count) = Some r" by auto
  show ?case
  proof (cases r)
    case (Matched c)
    from adv r Matched have "1 \<le> c" by blast
    with consumed_within_array[of rules sub ctx "index + count" c] r Matched
    have "index + count + c \<le> length (sv_data ctx)" by simp
    with \<open>1 \<le> c\<close> have "length (sv_data ctx) - (index + (count + c))
        < length (sv_data ctx) - (index + count)" by simp
    from less[OF this] r Matched show ?thesis
      by (simp add: Asterisk_loop_unfold[of _ _ _ index count])
  next
    case NoMatch
    with r show ?thesis by (simp add: Asterisk_loop_unfold[of _ _ _ index count])
  next
    case Fault
    with r show ?thesis by (simp add: Asterisk_loop_unfold[of _ _ _ index count])
  qed
qed


section \<open>The demonstration of main.cpp\<close>

text \<open>
  Claim C1. The anchored top-level rule \<open>Toplevel = Seq<Start, Additive, End>\<close>, matched
  at offset 0 against the string literal of \<^verbatim>\<open>main\<close>, succeeds and consumes 13 units,
  the length of the input. (The match compares the byte at offset 13, the literal's
  terminating zero, with \<open>+\<close>, \<open>*\<close> and the digits.)
\<close>

theorem Toplevel_matches_main_input:
  "topdown_match clause (Clause Toplevel) (literal ''(1+1)+1*(5+5)'') 0 = Some (Matched 13)
   \<and> sv_size (literal ''(1+1)+1*(5+5)'') = 13"
  by (simp add: topdown_match_simps Plus_loop_unfold Start_match_def End_match_def
      Char_match_def CharRange_match_def sv_at_def literal_def char_val_def)

text \<open>
  The same characters in a buffer that ends with them: the comparison at offset 13 then
  reads outside the array.
\<close>

lemma Toplevel_on_unterminated_input:
  "topdown_match clause (Clause Toplevel) (exact ''(1+1)+1*(5+5)'') 0 = Some Fault"
  by (simp add: topdown_match_simps Plus_loop_unfold Start_match_def End_match_def
      Char_match_def CharRange_match_def sv_at_def exact_def char_val_def)

text \<open>The other scenarios the specification lists.\<close>

lemma spec_scenarios:
  "topdown_match rules (Char CHR ''a'') (literal ''a'') 0 = Some (Matched 1)"
  "topdown_match rules (CharRange CHR ''0'' CHR ''9'') (literal ''x'') 0 = Some NoMatch"
  "topdown_match clause (Plus (Clause Digit)) (literal ''123abc'') 0 = Some (Matched 3)"
  "topdown_match clause (Asterisk (Clause Digit)) (literal ''abc'') 0 = Some (Matched 0)"
  "topdown_match rules End (literal []) 0 = Some (Matched 0)"
  "topdown_match rules End (literal ''a'') 0 = Some NoMatch"
  by (simp_all add: topdown_match_simps Plus_loop_unfold Asterisk_loop_unfold Start_match_def
      End_match_def Char_match_def CharRange_match_def sv_at_def literal_def char_val_def)

section \<open>Sequence and ordered choice\<close>

text \<open>
  Claim C7. Sequencing is associative: \<open>Seq<Seq<a, b>, c>\<close> and \<open>Seq<a, Seq<b, c>>\<close> return
  the same outcome, or both do not return, for all clauses, inputs and offsets: the same
  success or failure and, on success, the same consumed length.
\<close>

theorem Seq_assoc:
  "topdown_match rules (Seq (Seq a [b]) [c]) ctx index =
   topdown_match rules (Seq a [Seq b [c]]) ctx index"
  by (simp add: topdown_match_simps add.assoc split: option.split outcome.split)

text \<open>
  Claim C6. Whenever \<open>a\<close> succeeds, \<open>Ord<a, b>\<close> returns the outcome of \<open>a\<close> unchanged,
  whatever \<open>b\<close> would do; and \<open>Ord<a, b>\<close> fails exactly when both \<open>a\<close> and \<open>b\<close> fail.
\<close>

theorem Ord_first_success_wins:
  "(topdown_match rules a ctx index = Some (Matched k) \<longrightarrow>
      topdown_match rules (Ord a [b]) ctx index = Some (Matched k))
   \<and> (topdown_match rules (Ord a [b]) ctx index = Some NoMatch \<longleftrightarrow>
      topdown_match rules a ctx index = Some NoMatch \<and>
      topdown_match rules b ctx index = Some NoMatch)"
  by (simp add: topdown_match_simps split: option.split outcome.split)

theorem Ord_first_success_wins_witness:
  "topdown_match clause (Char CHR ''a'') (literal ''ab'') 0 = Some (Matched 1)
   \<and> topdown_match clause (Seq (Char CHR ''a'') [Char CHR ''b'']) (literal ''ab'') 0
       = Some (Matched 2)
   \<and> topdown_match clause (Ord (Char CHR ''a'') [Seq (Char CHR ''a'') [Char CHR ''b'']])
        (literal ''ab'') 0 = Some (Matched 1)"
proof -
  have a: "topdown_match clause (Char CHR ''a'') (literal ''ab'') 0 = Some (Matched 1)"
    by (simp add: topdown_match_simps Char_match_def sv_at_def literal_def)
  have b: "topdown_match clause (Seq (Char CHR ''a'') [Char CHR ''b'']) (literal ''ab'') 0
       = Some (Matched 2)"
    by (simp add: topdown_match_simps Char_match_def sv_at_def literal_def)
  from a b show ?thesis
    using Ord_first_success_wins
      [of clause "Char CHR ''a''" "literal ''ab''" 0 1 "Seq (Char CHR ''a'') [Char CHR ''b'']"]
    by simp
qed

section \<open>Characters past the end of the view\<close>

lemmas eval_simps =
  topdown_match_simps Plus_loop_unfold Asterisk_loop_unfold Start_match_def End_match_def
  Char_match_def CharRange_match_def sv_at_def literal_def exact_def substr_def char_val_def

text \<open>
  Claim C2 says that \<^verbatim>\<open>Char<C>\<close> and \<^verbatim>\<open>CharRange<S, T>\<close> return \<open>NoMatch\<close> at every
  offset at or past the length of the input. The code has no such check:
  \<^verbatim>\<open>context[index]\<close> is read whatever \<open>index\<close> is. On the view of the first character of
  \<open>ab\<close>, at offset 1, both succeed on the character behind the view; on a view with
  nothing behind it the read leaves the array.
\<close>

theorem Char_reads_past_the_view:
  "sv_size (substr (literal ''ab'') 0 1) = 1
   \<and> topdown_match rules (Char CHR ''b'') (substr (literal ''ab'') 0 1) 1 = Some (Matched 1)
   \<and> topdown_match rules (CharRange CHR ''a'' CHR ''z'') (substr (literal ''ab'') 0 1) 1
       = Some (Matched 1)
   \<and> topdown_match rules (Char CHR ''b'') (exact ''a'') 1 = Some Fault
   \<and> topdown_match rules (CharRange CHR ''a'' CHR ''z'') (exact ''a'') 1 = Some Fault"
  by (simp add: eval_simps)

text \<open>In general, at an offset at or past the end of the view:\<close>

lemma Char_past_the_view:
  "sv_size ctx \<le> index \<Longrightarrow> index < length (sv_data ctx) \<Longrightarrow>
     topdown_match rules (Char c) ctx index =
       Some (if sv_data ctx ! index = c then Matched 1 else NoMatch)"
  "length (sv_data ctx) \<le> index \<Longrightarrow> topdown_match rules (Char c) ctx index = Some Fault"
  by (simp_all add: topdown_match_Char Char_match_def sv_at_def)

text \<open>
  Claim C3 says that a successful match of length \<open>k\<close> at offset \<open>i\<close> ends inside the
  input, \<open>i + k \<le> length s\<close>. For the same reason the code breaks it: on the view of the
  first character of \<open>12\<close>, the rule \<open>Number\<close> consumes two characters at offset 0.
\<close>

theorem match_ends_past_the_view:
  "sv_size (substr (literal ''12'') 0 1) = 1
   \<and> topdown_match clause (Clause Number) (substr (literal ''12'') 0 1) 0 = Some (Matched 2)"
  by (simp add: eval_simps)

text \<open>
  What does hold: the match ends inside the array (\<open>consumed_within_array\<close>), so on a view
  with nothing behind it a match that consumes anything ends inside the view.
\<close>

lemma consumed_within_exact_view:
  "topdown_match rules g (exact s) index = Some (Matched k) \<Longrightarrow> 0 < k
   \<Longrightarrow> index + k \<le> sv_size (exact s)"
  using consumed_within_array[of rules g "exact s" index k] by (simp add: exact_def)

section \<open>Repetition\<close>

text \<open>
  Claim C4 says that \<^verbatim>\<open>Asterisk<sub>\<close> succeeds for every clause, input and offset. It
  does not when its loop never ends: \<^verbatim>\<open>Asterisk<Start>\<close> at offset 0 never returns.
\<close>

theorem Asterisk_Start_never_returns:
  "topdown_match clause (Asterisk Start) (literal []) 0 = None"
  by (rule Asterisk_Start_None)

text \<open>
  Claim C4, amended. \<^verbatim>\<open>Asterisk<sub>\<close> never returns \<open>NoMatch\<close>, and it succeeds with the
  total \<open>k\<close> exactly when the iterations of \<open>sub\<close> from the offset end with a failure after
  consuming \<open>k\<close> units in all (none, when \<open>sub\<close> fails at the offset itself).
\<close>

theorem Asterisk_outcome:
  "topdown_match rules (Asterisk sub) ctx index \<noteq> Some NoMatch
   \<and> (topdown_match rules (Asterisk sub) ctx index = Some (Matched k) \<longleftrightarrow>
        (\<exists>cs. iterations rules sub ctx index cs \<and> sum_list cs = k))"
  using Asterisk_not_NoMatch[of rules sub ctx index] Asterisk_Matched_iff[of rules sub ctx index k]
  by simp

theorem Asterisk_outcome_witness:
  "iterations clause (Clause Digit) (literal ''abc'') 0 []
   \<and> topdown_match clause (Asterisk (Clause Digit)) (literal ''abc'') 0 = Some (Matched 0)
   \<and> iterations clause (Clause Digit) (literal ''12a'') 0 [1, 1]
   \<and> topdown_match clause (Asterisk (Clause Digit)) (literal ''12a'') 0 = Some (Matched 2)"
proof -
  have a: "iterations clause (Clause Digit) (literal ''abc'') 0 []"
    by (simp add: iterations_def eval_simps)
  have b: "iterations clause (Clause Digit) (literal ''12a'') 0 [1, 1]"
    by (simp add: iterations_def eval_simps)
  from a have "\<exists>cs. iterations clause (Clause Digit) (literal ''abc'') 0 cs \<and> sum_list cs = 0"
    by (intro exI[of _ "[]"]) simp
  moreover
  from b have "\<exists>cs. iterations clause (Clause Digit) (literal ''12a'') 0 cs \<and> sum_list cs = 2"
    by (intro exI[of _ "[1, 1]"]) simp
  ultimately show ?thesis
    using a b Asterisk_outcome[of clause "Clause Digit" "literal ''abc''" 0 0]
      Asterisk_outcome[of clause "Clause Digit" "literal ''12a''" 0 2]
    by simp
qed

text \<open>
  Claim C5 says that \<^verbatim>\<open>Plus<sub>\<close> succeeds whenever \<open>sub\<close> succeeds at the starting
  offset. It does not when its loop never ends: \<^verbatim>\<open>Start\<close> succeeds at offset 0 and
  \<^verbatim>\<open>Plus<Start>\<close> never returns there.
\<close>

theorem Plus_Start_never_returns:
  "topdown_match clause Start (literal []) 0 = Some (Matched 0)
   \<and> topdown_match clause (Plus Start) (literal []) 0 = None"
  using Plus_Start_None[of clause "literal []"]
  by (simp add: topdown_match_Start Start_match_def)

text \<open>
  Claim C5, amended. \<^verbatim>\<open>Plus<sub>\<close> fails exactly when \<open>sub\<close> fails at the starting offset,
  and it succeeds with the total \<open>k\<close> exactly when the iterations of \<open>sub\<close> from the
  starting offset, at least one, end with a failure after consuming \<open>k\<close> units in all.
\<close>

theorem Plus_outcome:
  "(topdown_match rules (Plus sub) ctx index = Some NoMatch \<longleftrightarrow>
      topdown_match rules sub ctx index = Some NoMatch)
   \<and> (topdown_match rules (Plus sub) ctx index = Some (Matched k) \<longleftrightarrow>
        (\<exists>cs. cs \<noteq> [] \<and> iterations rules sub ctx index cs \<and> sum_list cs = k))"
  using Plus_NoMatch_iff[of rules sub ctx index] Plus_Matched_iff[of rules sub ctx index k]
  by simp

theorem Plus_outcome_witness:
  "topdown_match clause (Clause Digit) (literal ''abc'') 0 = Some NoMatch
   \<and> topdown_match clause (Plus (Clause Digit)) (literal ''abc'') 0 = Some NoMatch
   \<and> iterations clause (Clause Digit) (literal ''123abc'') 0 [1, 1, 1]
   \<and> topdown_match clause (Plus (Clause Digit)) (literal ''123abc'') 0 = Some (Matched 3)"
proof -
  have a: "topdown_match clause (Clause Digit) (literal ''abc'') 0 = Some NoMatch"
    by (simp add: eval_simps)
  have b: "iterations clause (Clause Digit) (literal ''123abc'') 0 [1, 1, 1]"
    by (simp add: iterations_def eval_simps)
  then have "\<exists>cs. cs \<noteq> [] \<and> iterations clause (Clause Digit) (literal ''123abc'') 0 cs
      \<and> sum_list cs = 3"
    by (intro exI[of _ "[1, 1, 1]"]) simp
  with a b show ?thesis
    using Plus_outcome[of clause "Clause Digit" "literal ''abc''" 0 0]
      Plus_outcome[of clause "Clause Digit" "literal ''123abc''" 0 3]
    by simp
qed

text \<open>
  Claim C8. Let every successful match of \<open>sub\<close> consume at least 1 unit. Then the loops
  of \<^verbatim>\<open>Plus<sub>\<close> and \<^verbatim>\<open>Asterisk<sub>\<close> end: the offset grows with every iteration and a
  consumed character lies in the array, so from \<open>index\<close> on no more iterations succeed in
  a row than the array has characters left; and when every call of \<open>sub\<close> returns, so do
  the calls of \<^verbatim>\<open>Plus<sub>\<close> and \<^verbatim>\<open>Asterisk<sub>\<close>.
\<close>

theorem repetition_terminates:
  assumes adv: "\<forall>j c. topdown_match rules sub ctx j = Some (Matched c) \<longrightarrow> 1 \<le> c"
  shows "(successes rules sub ctx index cs \<longrightarrow> length cs \<le> length (sv_data ctx) - index)
    \<and> ((\<forall>j. topdown_match rules sub ctx j \<noteq> None) \<longrightarrow>
          topdown_match rules (Plus sub) ctx index \<noteq> None \<and>
          topdown_match rules (Asterisk sub) ctx index \<noteq> None)"
proof (intro conjI impI)
  assume "successes rules sub ctx index cs"
  from successes_bound[OF adv this] show "length cs \<le> length (sv_data ctx) - index"
    by (cases "cs = []") auto
next
  assume ret: "\<forall>j. topdown_match rules sub ctx j \<noteq> None"
  from Asterisk_loop_returns[OF ret adv]
  show "topdown_match rules (Asterisk sub) ctx index \<noteq> None"
    by (simp add: topdown_match_simps)
  from ret obtain r where "topdown_match rules sub ctx index = Some r" by auto
  with Asterisk_loop_returns[OF ret adv, of index]
  show "topdown_match rules (Plus sub) ctx index \<noteq> None"
    by (cases r) (auto simp: topdown_match_simps Plus_loop_unfold[of _ _ _ index 0] Plus_loop_True)
qed

theorem repetition_terminates_witness:
  "successes clause (Clause Digit) (literal ''123abc'') 0 [1, 1, 1]
   \<and> length [1, 1, 1 :: nat] \<le> length (sv_data (literal ''123abc'')) - 0
   \<and> topdown_match clause (Plus (Clause Digit)) (literal ''123abc'') 0 \<noteq> None
   \<and> topdown_match clause (Asterisk (Clause Digit)) (literal ''123abc'') 0 \<noteq> None"
proof -
  have adv: "\<forall>j c. topdown_match clause (Clause Digit) (literal ''123abc'') j = Some (Matched c)
      \<longrightarrow> 1 \<le> c"
    by (auto simp: topdown_match_simps CharRange_match_def split: option.splits if_splits)
  have ret: "\<forall>j. topdown_match clause (Clause Digit) (literal ''123abc'') j \<noteq> None"
    by (simp add: topdown_match_simps)
  have succ: "successes clause (Clause Digit) (literal ''123abc'') 0 [1, 1, 1]"
    by (simp add: eval_simps)
  from succ ret show ?thesis
    using repetition_terminates[OF adv, of 0 "[1, 1, 1]"] by blast
qed

text \<open>
  Claim C9. \<^verbatim>\<open>Plus<sub>\<close> and \<^verbatim>\<open>Seq<sub, Asterisk<sub>>\<close> return the same outcome, or both
  do not return, for every clause, input and offset. Both fail exactly when \<open>sub\<close> fails
  at the starting offset, and both succeed with \<open>k\<close> exactly when \<open>sub\<close> succeeds there
  with some \<open>a\<close>, \<^verbatim>\<open>Asterisk<sub>\<close> succeeds at the advanced offset with some \<open>b\<close>, and
  \<open>k = a + b\<close>.
\<close>

theorem Plus_is_Seq_Asterisk:
  "topdown_match rules (Plus sub) ctx index =
     topdown_match rules (Seq sub [Asterisk sub]) ctx index
   \<and> (topdown_match rules (Seq sub [Asterisk sub]) ctx index = Some NoMatch \<longleftrightarrow>
        topdown_match rules sub ctx index = Some NoMatch)
   \<and> (topdown_match rules (Seq sub [Asterisk sub]) ctx index = Some (Matched k) \<longleftrightarrow>
        (\<exists>a b. topdown_match rules sub ctx index = Some (Matched a) \<and>
               topdown_match rules (Asterisk sub) ctx (index + a) = Some (Matched b) \<and>
               k = a + b))"
proof (intro conjI)
  have "Asterisk_loop rules sub ctx index c =
        map_option (add_consumed c) (Asterisk_loop rules sub ctx (index + c) 0)" for c
    using Asterisk_loop_shift[of rules sub ctx index c 0] by simp
  then show "topdown_match rules (Plus sub) ctx index =
     topdown_match rules (Seq sub [Asterisk sub]) ctx index"
    by (simp add: topdown_match_simps Plus_loop_unfold[of _ _ _ index 0] Plus_loop_True
        add_consumed_def split: option.split outcome.split)
  show "topdown_match rules (Seq sub [Asterisk sub]) ctx index = Some NoMatch \<longleftrightarrow>
        topdown_match rules sub ctx index = Some NoMatch"
    using Asterisk_not_NoMatch[of rules sub ctx]
    by (auto simp: topdown_match_Seq topdown_match_Seq_single split: option.splits outcome.splits)
  show "topdown_match rules (Seq sub [Asterisk sub]) ctx index = Some (Matched k) \<longleftrightarrow>
        (\<exists>a b. topdown_match rules sub ctx index = Some (Matched a) \<and>
               topdown_match rules (Asterisk sub) ctx (index + a) = Some (Matched b) \<and>
               k = a + b)"
    by (auto simp: topdown_match_Seq topdown_match_Seq_single split: option.splits outcome.splits)
qed

text \<open>
  Claim C10. Repetition is greedy: when \<^verbatim>\<open>Plus<sub>\<close> or \<^verbatim>\<open>Asterisk<sub>\<close> succeeds at
  offset \<open>index\<close> with the total \<open>k\<close>, the clause \<open>sub\<close> fails at offset \<open>index + k\<close>.
\<close>

theorem repetition_greedy:
  "(topdown_match rules (Plus sub) ctx index = Some (Matched k) \<longrightarrow>
      topdown_match rules sub ctx (index + k) = Some NoMatch)
   \<and> (topdown_match rules (Asterisk sub) ctx index = Some (Matched k) \<longrightarrow>
      topdown_match rules sub ctx (index + k) = Some NoMatch)"
  using Plus_loop_greedy[of rules sub ctx index 0 False "Matched k" k]
    Asterisk_loop_greedy[of rules sub ctx index 0 "Matched k" k]
  by (simp add: topdown_match_simps)

theorem repetition_greedy_witness:
  "topdown_match clause (Plus (Clause Digit)) (literal ''123abc'') 0 = Some (Matched 3)
   \<and> topdown_match clause (Asterisk (Clause Digit)) (literal ''123abc'') 0 = Some (Matched 3)
   \<and> topdown_match clause (Clause Digit) (literal ''123abc'') (0 + 3) = Some NoMatch"
proof -
  have p: "topdown_match clause (Plus (Clause Digit)) (literal ''123abc'') 0 = Some (Matched 3)"
    by (simp add: eval_simps)
  have a: "topdown_match clause (Asterisk (Clause Digit)) (literal ''123abc'') 0
      = Some (Matched 3)"
    by (simp add: eval_simps)
  from p a show ?thesis
    using repetition_greedy[of clause "Clause Digit" "literal ''123abc''" 0 3] by blast
qed

end
